theory Spec2Isabelle
  imports Complex_Main "HOL-Library.Char_ord" "HOL-Library.List_Lexorder" "HOL-Library.AList"
begin

section \<open>Data model of utility.py\<close>

text \<open>
  Python strings are modelled as \<open>string\<close>; a \<open>char\<close> is read as a code point below 256.
  A Python \<open>dict\<close> is an association list in insertion order with pairwise distinct keys:
  \<open>d[k] = v\<close> is \<open>AList.update k v d\<close> (the value is replaced in place, a new key goes to
  the end), \<open>k in d\<close> and \<open>d.get(k)\<close> are \<open>map_of d k\<close>.

  A view definition is the dict built in \<open>analyze_all_workbooks\<close>. Every key is read with
  \<open>.get\<close>, so every field is optional: \<open>None\<close> is a missing key (or, for the fields read
  without a default, the value \<open>None\<close>).
\<close>

datatype error = ValueError | IndexError

record column =
  col_name :: string
  col_datatype :: string
  col_role :: string

record calc_field =
  cf_name :: string
  cf_formula :: string

record view_definition =
  def_name :: "string option"
  def_table :: "string option"
  def_database :: "string option"
  def_schema :: "string option"
  def_columns :: "column list option"
  def_calculated_fields :: "calc_field list option"
  def_custom_sql :: "string option"

text \<open>\<open>definition.get('columns', [])\<close> and \<open>definition.get('calculated_fields', [])\<close>.\<close>

definition get_columns :: "view_definition \<Rightarrow> column list" where
  "get_columns d = (case def_columns d of None \<Rightarrow> [] | Some cs \<Rightarrow> cs)"

definition get_calculated_fields :: "view_definition \<Rightarrow> calc_field list" where
  "get_calculated_fields d = (case def_calculated_fields d of None \<Rightarrow> [] | Some cs \<Rightarrow> cs)"

text \<open>One entry of \<open>view_registry[view_name]\<close>: the dict with keys definition, source, hash.\<close>

record observation =
  obs_definition :: view_definition
  obs_source :: string
  obs_hash :: string

text \<open>
  The dict returned by \<open>_compute_difference\<close>. Each value is \<open>list(s)\<close> of a Python set
  \<open>s\<close>, whose order the language leaves open; it is kept as the set.
\<close>

record difference =
  columns_only_in_def1 :: "string set"
  columns_only_in_def2 :: "string set"
  calc_fields_only_in_def1 :: "string set"
  calc_fields_only_in_def2 :: "string set"

record variation =
  var_source :: string
  var_difference :: difference

text \<open>
  The dataclass \<open>UnifiedView\<close>. Its defaults are \<open>source_workbooks = []\<close>,
  \<open>canonical_definition = None\<close>, \<open>variations = []\<close>, \<open>merge_strategy = "most_complete"\<close>;
  every construction below writes the defaulted fields out.
\<close>

record UnifiedView =
  name :: string
  source_workbooks :: "string list"
  canonical_definition :: "view_definition option"
  variations :: "variation list"
  merge_strategy :: string

type_synonym registry = "(string \<times> observation list) list"

type_synonym unified_views = "(string \<times> UnifiedView) list"

record ViewConsolidator =
  view_registry :: registry
  similarity_threshold :: real

section \<open>ViewConsolidator\<close>

definition ViewConsolidator_init :: ViewConsolidator where
  "ViewConsolidator_init = \<lparr>view_registry = [], similarity_threshold = 0.85\<rparr>"

text \<open>
  The dict \<open>key_elements\<close> of \<open>_hash_definition\<close>. The digest itself,
  \<open>hashlib.md5(json.dumps(key_elements, sort_keys=True).encode()).hexdigest()\<close>, is library
  code and is taken as the parameter \<open>md5_json\<close>.
\<close>

record key_elements =
  ke_table :: "string option"
  ke_columns :: "string list"
  ke_calc_fields :: "string list"

definition hash_definition :: "(key_elements \<Rightarrow> string) \<Rightarrow> view_definition \<Rightarrow> string" where
  "hash_definition md5_json d =
     md5_json \<lparr>ke_table = def_table d,
               ke_columns = sort (map col_name (get_columns d)),
               ke_calc_fields = sort (map cf_name (get_calculated_fields d))\<rparr>"

definition register_view ::
  "(key_elements \<Rightarrow> string) \<Rightarrow> ViewConsolidator \<Rightarrow> string \<Rightarrow> view_definition \<Rightarrow> string
     \<Rightarrow> ViewConsolidator" where
  "register_view md5_json self view_name view_def workbook_source =
     (let reg = (if map_of (view_registry self) view_name = None
                 then AList.update view_name [] (view_registry self)
                 else view_registry self);
          obs = \<lparr>obs_definition = view_def, obs_source = workbook_source,
                 obs_hash = hash_definition md5_json view_def\<rparr>
      in self\<lparr>view_registry := AList.map_entry view_name (\<lambda>l. l @ [obs]) reg\<rparr>)"

text \<open>
  \<open>_compute_difference\<close>: set differences of the column names and of the calculated-field
  names of the two definitions.
\<close>

definition compute_difference :: "view_definition \<Rightarrow> view_definition \<Rightarrow> difference" where
  "compute_difference def1 def2 =
     (let cols1 = set (map col_name (get_columns def1));
          cols2 = set (map col_name (get_columns def2));
          calcs1 = set (map cf_name (get_calculated_fields def1));
          calcs2 = set (map cf_name (get_calculated_fields def2))
      in \<lparr>columns_only_in_def1 = cols1 - cols2,
          columns_only_in_def2 = cols2 - cols1,
          calc_fields_only_in_def1 = calcs1 - calcs2,
          calc_fields_only_in_def2 = calcs2 - calcs1\<rparr>)"

text \<open>
  Python's \<open>max(iterable, key=f)\<close>: the running maximum is replaced only by an item whose
  key is strictly greater, so the first maximal item is returned; an empty iterable raises
  \<open>ValueError\<close>.
\<close>

fun max_from :: "('a \<Rightarrow> nat) \<Rightarrow> 'a \<Rightarrow> 'a list \<Rightarrow> 'a" where
  "max_from key best [] = best"
| "max_from key best (x # xs) = max_from key (if key best < key x then x else best) xs"

definition py_max :: "('a \<Rightarrow> nat) \<Rightarrow> 'a list \<Rightarrow> error + 'a" where
  "py_max key xs = (case xs of [] \<Rightarrow> Inl ValueError | x # rest \<Rightarrow> Inr (max_from key x rest))"

text \<open>The key of the \<open>max\<close> call in \<open>_consolidate_view_definitions\<close>.\<close>

definition completeness :: "observation \<Rightarrow> nat" where
  "completeness d =
     length (get_columns (obs_definition d)) + length (get_calculated_fields (obs_definition d))"

text \<open>The loop that fills \<open>variations\<close>.\<close>

fun collect_variations :: "observation \<Rightarrow> observation list \<Rightarrow> variation list" where
  "collect_variations most_complete [] = []"
| "collect_variations most_complete (d # ds) =
     (if obs_hash d \<noteq> obs_hash most_complete
      then \<lparr>var_source = obs_source d,
            var_difference =
              compute_difference (obs_definition most_complete) (obs_definition d)\<rparr>
           # collect_variations most_complete ds
      else collect_variations most_complete ds)"

definition consolidate_view_definitions :: "string \<Rightarrow> observation list \<Rightarrow> error + UnifiedView" where
  "consolidate_view_definitions view_name definitions =
     (let hashes = map obs_hash definitions in
      if card (set hashes) = 1 then
        (case definitions of
           [] \<Rightarrow> Inl IndexError
         | d0 # _ \<Rightarrow>
             Inr \<lparr>name = view_name,
                  source_workbooks = map obs_source definitions,
                  canonical_definition = Some (obs_definition d0),
                  variations = [],
                  merge_strategy = ''identical''\<rparr>)
      else
        (case py_max completeness definitions of
           Inl e \<Rightarrow> Inl e
         | Inr most_complete \<Rightarrow>
             (let vars = collect_variations most_complete definitions in
              Inr \<lparr>name = view_name,
                   source_workbooks = map obs_source definitions,
                   canonical_definition = Some (obs_definition most_complete),
                   variations = vars,
                   merge_strategy =
                     (if vars = [] then ''most_complete'' else ''manual_review'')\<rparr>)))"

text \<open>
  The body of the loop of \<open>consolidate\<close>: the view stored under \<open>view_name\<close>. A single
  observation is taken as it is (and keeps the default \<open>merge_strategy\<close>); otherwise
  \<open>_consolidate_view_definitions\<close> decides.
\<close>

definition consolidate_entry :: "string \<Rightarrow> observation list \<Rightarrow> error + UnifiedView" where
  "consolidate_entry view_name definitions =
     (if length definitions = 1 then
        (case definitions of
           [] \<Rightarrow> Inl IndexError
         | d0 # _ \<Rightarrow>
             Inr \<lparr>name = view_name,
                  source_workbooks = [obs_source d0],
                  canonical_definition = Some (obs_definition d0),
                  variations = [],
                  merge_strategy = ''most_complete''\<rparr>)
      else consolidate_view_definitions view_name definitions)"

text \<open>
  The loop of \<open>consolidate\<close> over \<open>self.view_registry.items()\<close>, with the dict
  \<open>unified_views\<close> built so far; an exception raised in the body ends it.
\<close>

fun consolidate_loop :: "registry \<Rightarrow> unified_views \<Rightarrow> error + unified_views" where
  "consolidate_loop [] unified = Inr unified"
| "consolidate_loop ((view_name, definitions) # rest) unified =
     (case consolidate_entry view_name definitions of
        Inl e \<Rightarrow> Inl e
      | Inr u \<Rightarrow> consolidate_loop rest (AList.update view_name u unified))"

text \<open>
  \<open>consolidate\<close> as a method: the value returned (or the exception raised) and the
  consolidator afterwards.
\<close>

definition consolidate :: "ViewConsolidator \<Rightarrow> (error + unified_views) \<times> ViewConsolidator" where
  "consolidate self = (consolidate_loop (view_registry self) [], self)"

text \<open>
  What a registry built by \<open>register_view\<close> always satisfies: the keys of the dict are
  distinct and no list of observations is empty.
\<close>

definition registry_ok :: "registry \<Rightarrow> bool" where
  "registry_ok reg = (distinct (map fst reg) \<and> list_all (\<lambda>(k, ds). ds \<noteq> []) reg)"

text \<open>The consolidator after a sequence of \<open>register_view\<close> calls on a fresh one.\<close>

definition registered ::
  "(key_elements \<Rightarrow> string) \<Rightarrow> (string \<times> view_definition \<times> string) list \<Rightarrow> ViewConsolidator" where
  "registered md5_json calls =
     fold (\<lambda>(view_name, view_def, src) self. register_view md5_json self view_name view_def src)
       calls ViewConsolidator_init"

section \<open>Strings\<close>

text \<open>
  The character classes of Python's \<open>re\<close> on \<open>str\<close> patterns and of \<open>str.lower\<close>,
  \<open>str.strip\<close>, for code points below 256: \<open>\s\<close> and \<open>str.isspace\<close> hold of 9-13, 28-32,
  133 and 160; \<open>\w\<close> holds of the digits, the letters, the underscore and the Latin-1
  letters and numerics; \<open>lower\<close> moves A-Z and the Latin-1 capitals (192-222 except 215) up
  by 32.
\<close>

definition is_space :: "char \<Rightarrow> bool" where
  "is_space c =
     (let n = (of_char c :: nat)
      in (9 \<le> n \<and> n \<le> 13) \<or> (28 \<le> n \<and> n \<le> 32) \<or> n = 133 \<or> n = 160)"

definition is_word :: "char \<Rightarrow> bool" where
  "is_word c =
     (let n = (of_char c :: nat)
      in (48 \<le> n \<and> n \<le> 57) \<or> (65 \<le> n \<and> n \<le> 90) \<or> n = 95 \<or> (97 \<le> n \<and> n \<le> 122)
         \<or> n = 170 \<or> n = 178 \<or> n = 179 \<or> n = 181 \<or> n = 185 \<or> n = 186
         \<or> (188 \<le> n \<and> n \<le> 190) \<or> (192 \<le> n \<and> n \<le> 214) \<or> (216 \<le> n \<and> n \<le> 246)
         \<or> (248 \<le> n \<and> n \<le> 255))"

definition lower_char :: "char \<Rightarrow> char" where
  "lower_char c =
     (let n = (of_char c :: nat)
      in if (65 \<le> n \<and> n \<le> 90) \<or> (192 \<le> n \<and> n \<le> 222 \<and> n \<noteq> 215)
         then char_of (n + 32) else c)"

definition str_lower :: "string \<Rightarrow> string" where
  "str_lower s = map lower_char s"

text \<open>\<open>s.strip(chars)\<close>: the characters in the class are removed from both ends.\<close>

definition str_strip :: "(char \<Rightarrow> bool) \<Rightarrow> string \<Rightarrow> string" where
  "str_strip p s = rev (dropWhile p (rev (dropWhile p s)))"

text \<open>\<open>s.replace(' ', '_')\<close>.\<close>

definition replace_space :: "string \<Rightarrow> string" where
  "replace_space s = map (\<lambda>c. if c = CHR '' '' then CHR ''_'' else c) s"

text \<open>
  \<open>re.sub(r'X+', r, s)\<close> for a character class \<open>X\<close>: scanning from the left, every maximal
  run of characters of the class is replaced by the one character \<open>r\<close>.
\<close>

function sub_runs :: "(char \<Rightarrow> bool) \<Rightarrow> char \<Rightarrow> string \<Rightarrow> string" where
  "sub_runs p r [] = []"
| "sub_runs p r (c # cs) =
     (if p c then r # sub_runs p r (dropWhile p cs) else c # sub_runs p r cs)"
  by pat_completeness auto
termination
  by (relation "measure (\<lambda>(p, r, s). length s)") (auto simp: le_imp_less_Suc length_dropWhile_le)

section \<open>CalculatedFieldConsolidator\<close>

record field_entry =
  fe_formula :: string
  fe_normalized :: string
  fe_source :: string

record CalculatedFieldConsolidator =
  field_registry :: "(string \<times> field_entry list) list"

definition CalculatedFieldConsolidator_init :: CalculatedFieldConsolidator where
  "CalculatedFieldConsolidator_init = \<lparr>field_registry = []\<rparr>"

text \<open>
  \<open>register_field\<close>. The registry is a \<open>defaultdict(list)\<close>: reading a missing key adds it
  with the empty list, which then receives the entry.
\<close>

definition register_field ::
  "CalculatedFieldConsolidator \<Rightarrow> string \<Rightarrow> string \<Rightarrow> string \<Rightarrow> CalculatedFieldConsolidator" where
  "register_field self field_name formula workbook_source =
     (let normalized_formula = sub_runs is_space CHR '' '' (str_strip is_space (str_lower formula));
          entry = \<lparr>fe_formula = formula, fe_normalized = normalized_formula,
                   fe_source = workbook_source\<rparr>
      in self\<lparr>field_registry :=
                AList.map_default field_name [entry] (\<lambda>l. l @ [entry]) (field_registry self)\<rparr>)"

text \<open>
  The values of the dict that \<open>find_duplicates\<close> is annotated to return, as
  \<open>_generate_consolidation_report\<close> reads them: \<open>data['variations']\<close> (only its length is
  read) and \<open>data['recommendation']\<close> with keys formula and sources.
\<close>

record recommendation =
  rec_formula :: string
  rec_sources :: "string list"

record duplicate_data =
  dup_variations :: "field_entry list"
  dup_recommendation :: recommendation

type_synonym duplicates = "(string \<times> duplicate_data) list"

definition find_duplicates ::
  "CalculatedFieldConsolidator \<Rightarrow> duplicates \<times> CalculatedFieldConsolidator" where
  "find_duplicates self = (let duplicates = [] in (duplicates, self))"

text \<open>The consolidator after a sequence of \<open>register_field\<close> calls on a fresh one.\<close>

definition fields_registered :: "(string \<times> string \<times> string) list \<Rightarrow> CalculatedFieldConsolidator" where
  "fields_registered calls =
     fold (\<lambda>(field_name, formula, src) self. register_field self field_name formula src)
       calls CalculatedFieldConsolidator_init"

section \<open>EnterpriseMigrationOrchestrator\<close>

record CalculatedFieldMock =
  cfm_name :: string
  cfm_formula :: string
  cfm_role :: string

record DataSourceMock =
  ds_name :: string
  ds_table :: string
  ds_database :: string
  ds_schema :: string
  ds_columns :: "column list"
  ds_calculated_fields :: "CalculatedFieldMock list"
  ds_custom_sql :: "string option"

record DashboardMock =
  dash_name :: string
  dash_worksheets :: "int list"
  dash_file_path :: string

record TableauParserWrapper =
  file_path :: string
  data_sources :: "DataSourceMock list"
  dashboards :: "DashboardMock list"

record EnterpriseMigrationOrchestrator =
  workbook_paths :: "string list"
  parsers :: "TableauParserWrapper list"
  view_consolidator :: ViewConsolidator
  calc_consolidator :: CalculatedFieldConsolidator
  unified_views :: unified_views
  duplicate_calcs :: duplicates

text \<open>The dict returned by \<open>_generate_consolidation_report\<close>.\<close>

record report_summary =
  workbooks_analyzed :: nat
  views_before_consolidation :: nat
  views_after_consolidation :: nat
  views_eliminated :: int
  views_requiring_manual_review :: nat
  duplicate_calculated_fields :: nat

record unified_view_entry =
  uve_sources :: "string list"
  uve_merge_strategy :: string
  uve_variations :: nat

record review_entry =
  rv_name :: string
  rv_sources :: "string list"
  rv_variations :: "variation list"

record duplicate_entry =
  variation_count :: nat
  recommended_formula :: string
  de_sources :: "string list"

record report =
  rep_summary :: report_summary
  rep_unified_views :: "(string \<times> unified_view_entry) list"
  rep_views_requiring_review :: "review_entry list"
  rep_duplicate_calculated_fields :: "(string \<times> duplicate_entry) list"

text \<open>A dict comprehension \<open>{k: f(v) for k, v in d.items()}\<close>.\<close>

definition dict_comp :: "('v \<Rightarrow> 'w) \<Rightarrow> (string \<times> 'v) list \<Rightarrow> (string \<times> 'w) list" where
  "dict_comp f d = fold (\<lambda>(k, v) acc. AList.update k (f v) acc) d []"

definition generate_consolidation_report :: "EnterpriseMigrationOrchestrator \<Rightarrow> report" where
  "generate_consolidation_report self =
     (let total_views_before = sum_list (map (\<lambda>p. length (data_sources p)) (parsers self));
          total_views_after = length (unified_views self);
          views_requiring_review =
            filter (\<lambda>v. merge_strategy v = ''manual_review'') (map snd (unified_views self))
      in \<lparr>rep_summary =
            \<lparr>workbooks_analyzed = length (workbook_paths self),
             views_before_consolidation = total_views_before,
             views_after_consolidation = total_views_after,
             views_eliminated = int total_views_before - int total_views_after,
             views_requiring_manual_review = length views_requiring_review,
             duplicate_calculated_fields = length (duplicate_calcs self)\<rparr>,
          rep_unified_views =
            dict_comp (\<lambda>view. \<lparr>uve_sources = source_workbooks view,
                                uve_merge_strategy = merge_strategy view,
                                uve_variations = length (variations view)\<rparr>)
              (unified_views self),
          rep_views_requiring_review =
            map (\<lambda>v. \<lparr>rv_name = name v, rv_sources = source_workbooks v,
                       rv_variations = variations v\<rparr>) views_requiring_review,
          rep_duplicate_calculated_fields =
            dict_comp (\<lambda>data. \<lparr>variation_count = length (dup_variations data),
                                recommended_formula =
                                  take 100 (rec_formula (dup_recommendation data)) @ ''...'',
                                de_sources = rec_sources (dup_recommendation data)\<rparr>)
              (duplicate_calcs self)\<rparr>)"

text \<open>\<open>_sanitize_name\<close>.\<close>

definition sanitize_name :: "string \<Rightarrow> string" where
  "sanitize_name nm =
     (let sanitized = filter (\<lambda>c. is_word c \<or> is_space c) nm;
          sanitized = replace_space (str_lower sanitized)
      in str_strip (\<lambda>c. c = CHR ''_'') (sub_runs (\<lambda>c. c = CHR ''_'') CHR ''_'' sanitized))"

text \<open>The artifact path of a view in \<open>generate_unified_lookml\<close>.\<close>

definition view_artifact_name :: "string \<Rightarrow> string" where
  "view_artifact_name view_name = ''views/'' @ sanitize_name view_name @ ''.view.lkml''"

text \<open>\<open>_map_datatype\<close>.\<close>

definition datatype_mapping :: "(string \<times> string) list" where
  "datatype_mapping =
     [(''string'', ''string''), (''integer'', ''number''), (''real'', ''number''),
      (''boolean'', ''yesno''), (''date'', ''date''), (''datetime'', ''time'')]"

definition map_datatype :: "string \<Rightarrow> string" where
  "map_datatype tableau_type =
     (case map_of datatype_mapping (str_lower tableau_type) of
        Some t \<Rightarrow> t
      | None \<Rightarrow> ''string'')"

section \<open>The specification's wording of the emitter rules\<close>

text \<open>
  The sanitized form as the specification words it: non-word characters stripped
  (whitespace is kept for the next step), whitespace folded to underscores, lowercased,
  duplicate underscores collapsed.
\<close>

fun collapse_underscores :: "string \<Rightarrow> string" where
  "collapse_underscores (a # b # cs) =
     (if a = CHR ''_'' \<and> b = CHR ''_'' then collapse_underscores (b # cs)
      else a # collapse_underscores (b # cs))"
| "collapse_underscores cs = cs"

definition spec_sanitize :: "string \<Rightarrow> string" where
  "spec_sanitize nm =
     collapse_underscores
       (str_lower
          (map (\<lambda>c. if is_space c then CHR ''_'' else c)
             (filter (\<lambda>c. is_word c \<or> is_space c) nm)))"

text \<open>
  The type table as the specification words it, applied to the datatype as given, with the
  default \<open>string\<close>.
\<close>

definition spec_datatype_table :: "(string \<times> string) list" where
  "spec_datatype_table =
     [(''string'', ''string''), (''integer'', ''number''), (''real'', ''number''),
      (''boolean'', ''boolean-flag''), (''date'', ''date''), (''datetime'', ''timestamp'')]"

definition spec_map_datatype :: "string \<Rightarrow> string" where
  "spec_map_datatype t = (case map_of spec_datatype_table t of Some v \<Rightarrow> v | None \<Rightarrow> ''string'')"

section \<open>analyze_all_workbooks\<close>

text \<open>
  The dict \<open>view_def\<close> built for a data source. The XML extraction of
  \<open>TableauParserWrapper.parse\<close> and \<open>pathlib\<close>'s \<open>Path.name\<close> are taken as the parameters
  \<open>parsed\<close> (the parser object after \<open>parse()\<close>) and \<open>path_name\<close>.
\<close>

definition view_def_of :: "DataSourceMock \<Rightarrow> view_definition" where
  "view_def_of ds =
     \<lparr>def_name = Some (ds_name ds),
      def_table = Some (ds_table ds),
      def_database = Some (ds_database ds),
      def_schema = Some (ds_schema ds),
      def_columns = Some (ds_columns ds),
      def_calculated_fields =
        Some (map (\<lambda>cf. \<lparr>cf_name = cfm_name cf, cf_formula = cfm_formula cf\<rparr>)
                (ds_calculated_fields ds)),
      def_custom_sql = ds_custom_sql ds\<rparr>"

fun register_data_sources ::
  "(key_elements \<Rightarrow> string) \<Rightarrow> string \<Rightarrow> DataSourceMock list \<Rightarrow> ViewConsolidator
     \<Rightarrow> ViewConsolidator" where
  "register_data_sources md5_json src [] vc = vc"
| "register_data_sources md5_json src (ds # rest) vc =
     register_data_sources md5_json src rest
       (register_view md5_json vc (ds_name ds) (view_def_of ds) src)"

fun analyze_loop ::
  "(key_elements \<Rightarrow> string) \<Rightarrow> (string \<Rightarrow> TableauParserWrapper) \<Rightarrow> (string \<Rightarrow> string)
     \<Rightarrow> string list \<Rightarrow> EnterpriseMigrationOrchestrator \<Rightarrow> EnterpriseMigrationOrchestrator" where
  "analyze_loop md5_json parsed path_name [] self = self"
| "analyze_loop md5_json parsed path_name (twb_path # rest) self =
     (let parser = parsed twb_path
      in analyze_loop md5_json parsed path_name rest
           (self\<lparr>parsers := parsers self @ [parser],
                 view_consolidator :=
                   register_data_sources md5_json (path_name twb_path) (data_sources parser)
                     (view_consolidator self)\<rparr>))"

definition EnterpriseMigrationOrchestrator_init ::
  "string list \<Rightarrow> EnterpriseMigrationOrchestrator" where
  "EnterpriseMigrationOrchestrator_init paths =
     \<lparr>workbook_paths = paths, parsers = [],
      view_consolidator = ViewConsolidator_init,
      calc_consolidator = CalculatedFieldConsolidator_init,
      unified_views = [], duplicate_calcs = []\<rparr>"

definition analyze_all_workbooks ::
  "(key_elements \<Rightarrow> string) \<Rightarrow> (string \<Rightarrow> TableauParserWrapper) \<Rightarrow> (string \<Rightarrow> string)
     \<Rightarrow> EnterpriseMigrationOrchestrator \<Rightarrow> error + report \<times> EnterpriseMigrationOrchestrator" where
  "analyze_all_workbooks md5_json parsed path_name self =
     (let self1 = analyze_loop md5_json parsed path_name (workbook_paths self) self;
          (result, vc) = consolidate (view_consolidator self1)
      in case result of
           Inl e \<Rightarrow> Inl e
         | Inr unified \<Rightarrow>
             (let (dups, cc) = find_duplicates (calc_consolidator self1);
                  self2 = self1\<lparr>view_consolidator := vc, calc_consolidator := cc,
                                unified_views := unified, duplicate_calcs := dups\<rparr>
              in Inr (generate_consolidation_report self2, self2)))"

section \<open>Example data\<close>

text \<open>
  A stand-in for the digest, a registry built by \<open>register_view\<close> calls from four
  workbooks, and two runs of the orchestrator: over one workbook with one data source, and
  over that workbook and a second one without data sources.
\<close>

definition example_digest :: "key_elements \<Rightarrow> string" where
  "example_digest k =
     (case ke_table k of None \<Rightarrow> ''null'' | Some t \<Rightarrow> t)
       @ ''|'' @ concat (map (\<lambda>c. c @ '','') (ke_columns k))
       @ ''|'' @ concat (map (\<lambda>c. c @ '','') (ke_calc_fields k))"

definition example_view :: "string \<Rightarrow> string list \<Rightarrow> view_definition" where
  "example_view nm cols =
     \<lparr>def_name = Some nm, def_table = Some ''t'', def_database = Some ''db'',
      def_schema = Some ''s'',
      def_columns = Some (map (\<lambda>c. \<lparr>col_name = c, col_datatype = ''string'', col_role = ''dimension''\<rparr>) cols),
      def_calculated_fields = Some [], def_custom_sql = None\<rparr>"

definition example_obs :: "string \<Rightarrow> string list \<Rightarrow> string \<Rightarrow> observation" where
  "example_obs nm cols src =
     \<lparr>obs_definition = example_view nm cols, obs_source = src,
      obs_hash = hash_definition example_digest (example_view nm cols)\<rparr>"

definition example_calls :: "(string \<times> view_definition \<times> string) list" where
  "example_calls =
     [(''Sales'', example_view ''Sales'' [''OrderID'', ''Amount''], ''W1''),
      (''Customers'', example_view ''Customers'' [''Id'', ''Name''], ''W1''),
      (''Sales'', example_view ''Sales'' [''OrderID'', ''Region''], ''W2''),
      (''Customers'', example_view ''Customers'' [''Name'', ''Id''], ''W2''),
      (''Sales'', example_view ''Sales'' [''OrderID'', ''Amount'', ''Region''], ''W3''),
      (''Sales'', example_view ''Sales'' [''Region'', ''Amount'', ''Extra''], ''W4''),
      (''Orders'', example_view ''Orders'' [''OrderID''], ''W2'')]"

definition example_sales :: "observation list" where
  "example_sales =
     [example_obs ''Sales'' [''OrderID'', ''Amount''] ''W1'',
      example_obs ''Sales'' [''OrderID'', ''Region''] ''W2'',
      example_obs ''Sales'' [''OrderID'', ''Amount'', ''Region''] ''W3'',
      example_obs ''Sales'' [''Region'', ''Amount'', ''Extra''] ''W4'']"

definition example_parsed :: "string \<Rightarrow> TableauParserWrapper" where
  "example_parsed p =
     \<lparr>file_path = p,
      data_sources =
        (if p = ''uploads/a.twb''
         then [\<lparr>ds_name = ''Orders'', ds_table = ''orders'',
                 ds_database = ''bigquery-public-data'', ds_schema = ''google_trends'',
                 ds_columns = [\<lparr>col_name = ''OrderID'', col_datatype = ''integer'',
                                 col_role = ''dimension''\<rparr>],
                 ds_calculated_fields = [], ds_custom_sql = None\<rparr>]
         else []),
      dashboards = [\<lparr>dash_name = ''Top Rising Terms Trend'', dash_worksheets = [1],
                     dash_file_path = p\<rparr>]\<rparr>"

definition example_path_name :: "string \<Rightarrow> string" where
  "example_path_name p = drop 8 p"

definition example_run :: "string list \<Rightarrow> error + report \<times> EnterpriseMigrationOrchestrator" where
  "example_run paths =
     analyze_all_workbooks example_digest example_parsed example_path_name
       (EnterpriseMigrationOrchestrator_init paths)"

definition example_state :: "string list \<Rightarrow> EnterpriseMigrationOrchestrator" where
  "example_state paths =
     (case example_run paths of
        Inr (r, s) \<Rightarrow> s
      | Inl e \<Rightarrow> EnterpriseMigrationOrchestrator_init paths)"

section \<open>Properties of the view consolidator\<close>

lemma max_from_mem: "max_from key best xs \<in> set (best # xs)"
  by (induction xs arbitrary: best) auto

lemma max_from_first:
  "\<exists>pre post. best # xs = pre @ max_from key best xs # post
     \<and> (\<forall>p\<in>set pre. key p < key (max_from key best xs))
     \<and> (\<forall>q\<in>set post. key q \<le> key (max_from key best xs))"
proof (induction xs arbitrary: best)
  case Nil
  have "[best] = [] @ max_from key best [] # []" by simp
  then show ?case by (metis empty_iff list.set(1))
next
  case (Cons x xs)
  define m where "m = max_from key best (x # xs)"
  show ?case
  proof (cases "key best < key x")
    case True
    then have m: "m = max_from key x xs" by (simp add: m_def)
    from Cons.IH [of x] obtain pre post where
      s: "x # xs = pre @ m # post" and
      lt: "\<forall>p\<in>set pre. key p < key m" and
      le: "\<forall>q\<in>set post. key q \<le> key m"
      unfolding m by blast
    have bm: "key best < key m"
    proof (cases pre)
      case Nil
      then have "x = m" using s by simp
      then show ?thesis using True by simp
    next
      case (Cons p ps)
      then have "p = x" using s by simp
      then have "key x < key m" using lt Cons by simp
      then show ?thesis using True by simp
    qed
    have "best # x # xs = (best # pre) @ m # post" using s by simp
    moreover have "\<forall>p\<in>set (best # pre). key p < key m" using lt bm by simp
    ultimately show ?thesis unfolding m_def [symmetric] using le by blast
  next
    case False
    then have m: "m = max_from key best xs" by (simp add: m_def)
    from Cons.IH [of best] obtain pre post where
      s: "best # xs = pre @ m # post" and
      lt: "\<forall>p\<in>set pre. key p < key m" and
      le: "\<forall>q\<in>set post. key q \<le> key m"
      unfolding m by blast
    show ?thesis
    proof (cases pre)
      case Nil
      then have e: "m = best" "xs = post" using s by simp_all
      have "best # x # xs = [] @ m # (x # post)" using e by simp
      moreover have "\<forall>q\<in>set (x # post). key q \<le> key m" using le e False by simp
      moreover have "\<forall>p\<in>set ([] :: 'a list). key p < key m" by simp
      ultimately show ?thesis unfolding m_def [symmetric] by blast
    next
      case (Cons p ps)
      then have pb: "p = best" and xs: "xs = ps @ m # post" using s by simp_all
      have bm: "key best < key m" using lt Cons pb by simp
      have "best # x # xs = (best # x # ps) @ m # post" using xs by simp
      moreover have "\<forall>p\<in>set (best # x # ps). key p < key m"
        using lt Cons bm False by auto
      ultimately show ?thesis unfolding m_def [symmetric] using le by blast
    qed
  qed
qed

lemma py_max_first:
  assumes "py_max key xs = Inr m"
  shows "\<exists>pre post. xs = pre @ m # post
     \<and> (\<forall>p\<in>set pre. key p < key m) \<and> (\<forall>q\<in>set post. key q \<le> key m)"
proof (cases xs)
  case Nil
  then show ?thesis using assms by (simp add: py_max_def)
next
  case (Cons x rest)
  then have "m = max_from key x rest" using assms by (simp add: py_max_def)
  then show ?thesis using max_from_first [of x rest key] Cons by simp
qed

lemma py_max_nonempty: "xs \<noteq> [] \<Longrightarrow> \<exists>m. py_max key xs = Inr m"
  by (cases xs) (simp_all add: py_max_def)

lemma collect_variations_empty:
  "collect_variations mc ds = [] \<longleftrightarrow> (\<forall>d\<in>set ds. obs_hash d = obs_hash mc)"
  by (induction ds) auto

lemma consolidate_entry_total:
  "ds \<noteq> [] \<Longrightarrow> \<exists>u. consolidate_entry n ds = Inr u"
  by (cases ds) (auto simp: consolidate_entry_def consolidate_view_definitions_def py_max_def Let_def)

lemma consolidate_loop_lookup:
  assumes "registry_ok reg"
  shows "\<exists>r. consolidate_loop reg unified = Inr r \<and>
           (\<forall>n. map_of r n = (case map_of reg n of
                                 None \<Rightarrow> map_of unified n
                               | Some ds \<Rightarrow> (case consolidate_entry n ds of Inr u \<Rightarrow> Some u | Inl e \<Rightarrow> None)))"
  using assms
proof (induction reg arbitrary: unified)
  case Nil
  show ?case by simp
next
  case (Cons entry rest)
  obtain k ds where entry: "entry = (k, ds)" by (cases entry)
  from Cons.prems entry have ne: "ds \<noteq> []" and fresh: "k \<notin> fst ` set rest" and ok: "registry_ok rest"
    by (auto simp: registry_ok_def)
  from consolidate_entry_total [OF ne] obtain u where u: "consolidate_entry k ds = Inr u" by blast
  from Cons.IH [OF ok, of "AList.update k u unified"] obtain r where
    r: "consolidate_loop rest (AList.update k u unified) = Inr r" and
    look: "\<forall>n. map_of r n = (case map_of rest n of
                                 None \<Rightarrow> map_of (AList.update k u unified) n
                               | Some ds \<Rightarrow> (case consolidate_entry n ds of Inr u \<Rightarrow> Some u | Inl e \<Rightarrow> None))"
    by blast
  have none: "map_of rest k = None" using fresh by (simp add: map_of_eq_None_iff)
  have "consolidate_loop (entry # rest) unified = Inr r" using entry u r by simp
  moreover have "\<forall>n. map_of r n = (case map_of (entry # rest) n of
                                 None \<Rightarrow> map_of unified n
                               | Some ds \<Rightarrow> (case consolidate_entry n ds of Inr u \<Rightarrow> Some u | Inl e \<Rightarrow> None))"
    using look entry u none by (auto simp: update_conv' split: option.splits)
  ultimately show ?case by blast
qed

lemma consolidate_lookup:
  assumes "registry_ok (view_registry self)" and "map_of (view_registry self) n = Some ds"
  shows "\<exists>r u. fst (consolidate self) = Inr r \<and> map_of r n = Some u \<and> consolidate_entry n ds = Inr u"
proof -
  from consolidate_loop_lookup [OF assms(1), of "[]"] obtain r where
    r: "consolidate_loop (view_registry self) [] = Inr r" and
    look: "\<forall>n. map_of r n = (case map_of (view_registry self) n of
                                 None \<Rightarrow> map_of [] n
                               | Some ds \<Rightarrow> (case consolidate_entry n ds of Inr u \<Rightarrow> Some u | Inl e \<Rightarrow> None))"
    by blast
  have "ds \<noteq> []" using assms by (auto simp: registry_ok_def list_all_iff dest!: map_of_SomeD)
  from consolidate_entry_total [OF this] obtain u where u: "consolidate_entry n ds = Inr u" by blast
  have "map_of r n = Some u" using look assms(2) u by simp
  then show ?thesis using r u by (auto simp: consolidate_def)
qed

lemma map_entry_nonempty:
  "distinct (map fst reg) \<Longrightarrow> list_all (\<lambda>(k, ds). ds \<noteq> [] \<or> k = n) reg \<Longrightarrow>
   list_all (\<lambda>(k, ds). ds \<noteq> []) (AList.map_entry n (\<lambda>l. l @ [obs]) reg)"
  by (induction reg) (force simp: list_all_iff)+

lemma update_nonempty_or:
  "list_all (\<lambda>(k, ds). ds \<noteq> []) reg \<Longrightarrow>
   list_all (\<lambda>(k, ds). ds \<noteq> [] \<or> k = n) (AList.update n [] reg)"
  by (induction reg) (auto simp: list_all_iff)

lemma register_view_ok:
  assumes "registry_ok (view_registry self)"
  shows "registry_ok (view_registry (register_view md5_json self n d s))"
proof -
  let ?reg = "if map_of (view_registry self) n = None
                 then AList.update n [] (view_registry self) else view_registry self"
  have d: "distinct (map fst ?reg)" using assms by (simp add: registry_ok_def distinct_update)
  have "list_all (\<lambda>(k, ds). ds \<noteq> [] \<or> k = n) ?reg"
    using assms update_nonempty_or [of "view_registry self" n]
    by (auto simp: registry_ok_def list_all_iff)
  then have ne: "list_all (\<lambda>(k, ds). ds \<noteq> []) (AList.map_entry n (\<lambda>l. l @ [obs]) ?reg)" for obs
    using d by (intro map_entry_nonempty)
  show ?thesis
    unfolding registry_ok_def register_view_def Let_def
    using d ne by (simp add: distinct_map_entry)
qed

lemma registered_from_ok:
  "registry_ok (view_registry self) \<Longrightarrow>
   registry_ok (view_registry
     (fold (\<lambda>(view_name, view_def, src) self. register_view md5_json self view_name view_def src)
        calls self))"
  by (induction calls arbitrary: self) (auto simp: register_view_ok)

lemma registered_ok: "registry_ok (view_registry (registered md5_json calls))"
  unfolding registered_def
  by (rule registered_from_ok) (simp add: registry_ok_def ViewConsolidator_init_def)

lemma consolidate_entry_single:
  "consolidate_entry n [obs] =
     Inr \<lparr>name = n, source_workbooks = [obs_source obs],
          canonical_definition = Some (obs_definition obs), variations = [],
          merge_strategy = ''most_complete''\<rparr>"
  by (simp add: consolidate_entry_def)

lemma same_hash_card:
  assumes "\<forall>d\<in>set ds. obs_hash d = obs_hash d0"
  shows "card (set (map obs_hash (d0 # ds))) = 1"
proof -
  have "set (map obs_hash (d0 # ds)) = {obs_hash d0}" using assms by auto
  then show ?thesis by (simp only: card.empty card.insert finite.emptyI empty_iff simp_thms if_False)
qed

lemma distinct_hashes_card:
  assumes "d1 \<in> set ds" "d2 \<in> set ds" "obs_hash d1 \<noteq> obs_hash d2"
  shows "card (set (map obs_hash ds)) \<noteq> 1"
proof
  assume "card (set (map obs_hash ds)) = 1"
  then obtain h where "set (map obs_hash ds) = {h}" by (auto simp: card_1_singleton_iff)
  moreover have "obs_hash d1 \<in> set (map obs_hash ds)" "obs_hash d2 \<in> set (map obs_hash ds)"
    using assms by auto
  ultimately show False using assms(3) by auto
qed

lemma differing_entry:
  assumes "d1 \<in> set ds" "d2 \<in> set ds" "obs_hash d1 \<noteq> obs_hash d2"
    and "consolidate_entry n ds = Inr u"
  shows "\<exists>m. py_max completeness ds = Inr m
           \<and> u = \<lparr>name = n, source_workbooks = map obs_source ds,
                    canonical_definition = Some (obs_definition m),
                    variations = collect_variations m ds,
                    merge_strategy =
                      (if collect_variations m ds = [] then ''most_complete'' else ''manual_review'')\<rparr>"
proof -
  have "d1 \<noteq> d2" using assms(3) by auto
  have len: "length ds \<noteq> 1"
  proof
    assume "length ds = 1"
    then obtain x where "ds = [x]" by (cases ds) auto
    then show False using assms(1,2) \<open>d1 \<noteq> d2\<close> by simp
  qed
  have ne: "ds \<noteq> []" using assms(1) by auto
  from py_max_nonempty [OF ne] obtain m where m: "py_max completeness ds = Inr m" by blast
  have "consolidate_view_definitions n ds = Inr u"
    using assms(4) len unfolding consolidate_entry_def by simp
  then show ?thesis
    unfolding consolidate_view_definitions_def Let_def
    using distinct_hashes_card [OF assms(1-3)] m by auto
qed

lemma example_registry:
  "view_registry (registered example_digest example_calls) =
     [(''Sales'', [example_obs ''Sales'' [''OrderID'', ''Amount''] ''W1'',
                   example_obs ''Sales'' [''OrderID'', ''Region''] ''W2'',
                   example_obs ''Sales'' [''OrderID'', ''Amount'', ''Region''] ''W3'',
                   example_obs ''Sales'' [''Region'', ''Amount'', ''Extra''] ''W4'']),
      (''Customers'', [example_obs ''Customers'' [''Id'', ''Name''] ''W1'',
                       example_obs ''Customers'' [''Name'', ''Id''] ''W2'']),
      (''Orders'', [example_obs ''Orders'' [''OrderID''] ''W2''])]"
  by (simp add: registered_def example_calls_def register_view_def ViewConsolidator_init_def
      example_obs_def Let_def)

lemma example_hashes:
  "obs_hash (example_obs ''Customers'' [''Name'', ''Id''] ''W2'')
     = obs_hash (example_obs ''Customers'' [''Id'', ''Name''] ''W1'')"
  "obs_hash (example_obs ''Sales'' [''OrderID'', ''Amount''] ''W1'')
     \<noteq> obs_hash (example_obs ''Sales'' [''OrderID'', ''Region''] ''W2'')"
  "obs_hash (example_obs ''Sales'' [''OrderID'', ''Amount''] ''W1'')
     \<noteq> obs_hash (example_obs ''Sales'' [''OrderID'', ''Amount'', ''Region''] ''W3'')"
  by code_simp+

section \<open>Properties of the string functions and of the example runs\<close>

lemma sub_runs_underscore:
  "sub_runs (\<lambda>c. c = CHR ''_'') CHR ''_'' s = collapse_underscores s"
  by (induction s rule: collapse_underscores.induct) auto

lemma lower_char_space: "lower_char c = CHR '' '' \<longleftrightarrow> c = CHR '' ''"
proof
  assume l: "lower_char c = CHR '' ''"
  show "c = CHR '' ''"
  proof (rule ccontr)
    assume n: "c \<noteq> CHR '' ''"
    define k where "k = (of_char c :: nat)"
    have up: "(65 \<le> k \<and> k \<le> 90) \<or> (192 \<le> k \<and> k \<le> 222 \<and> k \<noteq> 215)"
      using l n by (auto simp: lower_char_def Let_def k_def split: if_splits)
    then have "char_of (k + 32) = CHR '' ''" using l by (simp add: lower_char_def Let_def k_def)
    then have "of_char (char_of (k + 32) :: char) = (of_char CHR '' '' :: nat)" by simp
    then have "(k + 32) mod 256 = 32" by simp
    then show False using up by auto
  qed
next
  assume "c = CHR '' ''"
  then show "lower_char c = CHR '' ''" by (simp add: lower_char_def)
qed

lemma lower_char_underscore: "lower_char CHR ''_'' = CHR ''_''"
  by (simp add: lower_char_def)

lemma is_space_space: "is_space CHR '' ''"
  by (simp add: is_space_def)

lemma fold_char:
  assumes "is_space c \<longrightarrow> c = CHR '' ''"
  shows "(if lower_char c = CHR '' '' then CHR ''_'' else lower_char c)
           = lower_char (if is_space c then CHR ''_'' else c)"
proof (cases "c = CHR '' ''")
  case True
  have "lower_char c = CHR '' ''" using True lower_char_space by blast
  moreover have "is_space c" using True is_space_space by blast
  ultimately show ?thesis using lower_char_underscore by simp
next
  case False
  have "lower_char c \<noteq> CHR '' ''" using False lower_char_space by blast
  moreover have "\<not> is_space c" using False assms by blast
  ultimately show ?thesis by (simp only: if_False)
qed

lemma fold_lower_commute:
  assumes "\<forall>c\<in>set s. is_space c \<longrightarrow> c = CHR '' ''"
  shows "replace_space (str_lower s) = str_lower (map (\<lambda>c. if is_space c then CHR ''_'' else c) s)"
proof -
  have "map (\<lambda>c. if lower_char c = CHR '' '' then CHR ''_'' else lower_char c) s
          = map (\<lambda>c. lower_char (if is_space c then CHR ''_'' else c)) s"
    by (rule map_cong [OF refl]) (use assms fold_char in blast)
  then show ?thesis
    unfolding replace_space_def str_lower_def map_map comp_def .
qed

lemma example_runs_return:
  "\<not> isl (example_run [''uploads/a.twb''])"
  "\<not> isl (example_run [''uploads/a.twb'', ''uploads/b.twb''])"
  by code_simp+

section \<open>Claims about the view consolidator\<close>

text \<open>
  C1. For a name registered with observations that carry at least two distinct
  fingerprints, \<open>consolidate\<close> takes as canonical definition the record of the observation
  with the greatest \<open>len(columns) + len(calculated_fields)\<close>, and among several such the one
  registered first: every earlier observation is strictly less complete, no later one is
  more complete.
\<close>

theorem most_complete_first:
  assumes "registry_ok (view_registry self)"
    and "map_of (view_registry self) view_name = Some definitions"
    and "d1 \<in> set definitions" and "d2 \<in> set definitions" and "obs_hash d1 \<noteq> obs_hash d2"
  shows "\<exists>unified u earlier m later.
           fst (consolidate self) = Inr unified \<and> map_of unified view_name = Some u
           \<and> definitions = earlier @ m # later
           \<and> canonical_definition u = Some (obs_definition m)
           \<and> (\<forall>e\<in>set earlier.
                 length (get_columns (obs_definition e))
                   + length (get_calculated_fields (obs_definition e))
                 < length (get_columns (obs_definition m))
                   + length (get_calculated_fields (obs_definition m)))
           \<and> (\<forall>l\<in>set later.
                 length (get_columns (obs_definition l))
                   + length (get_calculated_fields (obs_definition l))
                 \<le> length (get_columns (obs_definition m))
                   + length (get_calculated_fields (obs_definition m)))"
proof -
  from consolidate_lookup [OF assms(1,2)] obtain r u where
    r: "fst (consolidate self) = Inr r" "map_of r view_name = Some u" and
    u: "consolidate_entry view_name definitions = Inr u" by blast
  from differing_entry [OF assms(3-5) u] obtain m where
    m: "py_max completeness definitions = Inr m" and
    c: "canonical_definition u = Some (obs_definition m)" by auto
  from py_max_first [OF m] obtain pre post where
    "definitions = pre @ m # post"
    "\<forall>p\<in>set pre. completeness p < completeness m"
    "\<forall>q\<in>set post. completeness q \<le> completeness m" by blast
  then show ?thesis using r c unfolding completeness_def by blast
qed

theorem most_complete_first_witness:
  "registry_ok (view_registry (registered example_digest example_calls))
   \<and> map_of (view_registry (registered example_digest example_calls)) ''Sales''
       = Some example_sales
   \<and> example_obs ''Sales'' [''OrderID'', ''Amount''] ''W1'' \<in> set example_sales
   \<and> example_obs ''Sales'' [''OrderID'', ''Region''] ''W2'' \<in> set example_sales
   \<and> obs_hash (example_obs ''Sales'' [''OrderID'', ''Amount''] ''W1'')
       \<noteq> obs_hash (example_obs ''Sales'' [''OrderID'', ''Region''] ''W2'')
   \<and> (\<exists>unified u earlier m later.
         fst (consolidate (registered example_digest example_calls)) = Inr unified
         \<and> map_of unified ''Sales'' = Some u
         \<and> example_sales = earlier @ m # later
         \<and> canonical_definition u = Some (obs_definition m)
         \<and> (\<forall>e\<in>set earlier.
               length (get_columns (obs_definition e))
                 + length (get_calculated_fields (obs_definition e))
               < length (get_columns (obs_definition m))
                 + length (get_calculated_fields (obs_definition m)))
         \<and> (\<forall>l\<in>set later.
               length (get_columns (obs_definition l))
                 + length (get_calculated_fields (obs_definition l))
               \<le> length (get_columns (obs_definition m))
                 + length (get_calculated_fields (obs_definition m))))"
proof -
  have ok: "registry_ok (view_registry (registered example_digest example_calls))"
    by (rule registered_ok)
  have look: "map_of (view_registry (registered example_digest example_calls)) ''Sales''
                = Some example_sales"
    by (simp add: example_registry example_sales_def)
  have m1: "example_obs ''Sales'' [''OrderID'', ''Amount''] ''W1'' \<in> set example_sales"
    by (simp add: example_sales_def)
  have m2: "example_obs ''Sales'' [''OrderID'', ''Region''] ''W2'' \<in> set example_sales"
    by (simp add: example_sales_def)
  note ne = example_hashes(2)
  note r = most_complete_first [OF ok look m1 m2 ne]
  show ?thesis by (intro conjI ok look m1 m2 ne r)
qed

text \<open>
  C2. For a name registered with two or more observations whose fingerprints are all
  equal, \<open>consolidate\<close> yields the strategy \<open>identical\<close>, the first observation's record as
  canonical definition, and no variations.
\<close>

theorem identical_strategy:
  assumes "registry_ok (view_registry self)"
    and "map_of (view_registry self) view_name = Some (d0 # ds)"
    and "ds \<noteq> []"
    and "\<forall>d\<in>set ds. obs_hash d = obs_hash d0"
  shows "\<exists>unified u. fst (consolidate self) = Inr unified \<and> map_of unified view_name = Some u
           \<and> merge_strategy u = ''identical''
           \<and> canonical_definition u = Some (obs_definition d0)
           \<and> variations u = []"
proof -
  from consolidate_lookup [OF assms(1,2)] obtain r u where
    r: "fst (consolidate self) = Inr r" "map_of r view_name = Some u" and
    u: "consolidate_entry view_name (d0 # ds) = Inr u" by blast
  have len: "length (d0 # ds) \<noteq> 1" using assms(3) by simp
  have "consolidate_view_definitions view_name (d0 # ds) = Inr u"
    using u len unfolding consolidate_entry_def by simp
  then have "u = \<lparr>name = view_name, source_workbooks = map obs_source (d0 # ds),
                  canonical_definition = Some (obs_definition d0), variations = [],
                  merge_strategy = ''identical''\<rparr>"
    unfolding consolidate_view_definitions_def Let_def
    using same_hash_card [OF assms(4)] by simp
  then show ?thesis using r by simp
qed

theorem identical_strategy_witness:
  "registry_ok (view_registry (registered example_digest example_calls))
   \<and> map_of (view_registry (registered example_digest example_calls)) ''Customers''
       = Some (example_obs ''Customers'' [''Id'', ''Name''] ''W1''
               # [example_obs ''Customers'' [''Name'', ''Id''] ''W2''])
   \<and> [example_obs ''Customers'' [''Name'', ''Id''] ''W2''] \<noteq> []
   \<and> obs_hash (example_obs ''Customers'' [''Name'', ''Id''] ''W2'')
       = obs_hash (example_obs ''Customers'' [''Id'', ''Name''] ''W1'')
   \<and> (\<exists>unified u.
         fst (consolidate (registered example_digest example_calls)) = Inr unified
         \<and> map_of unified ''Customers'' = Some u
         \<and> merge_strategy u = ''identical''
         \<and> canonical_definition u
             = Some (obs_definition (example_obs ''Customers'' [''Id'', ''Name''] ''W1''))
         \<and> variations u = [])"
proof -
  have ok: "registry_ok (view_registry (registered example_digest example_calls))"
    by (rule registered_ok)
  have look: "map_of (view_registry (registered example_digest example_calls)) ''Customers''
       = Some (example_obs ''Customers'' [''Id'', ''Name''] ''W1''
               # [example_obs ''Customers'' [''Name'', ''Id''] ''W2''])"
    by (simp add: example_registry)
  have ne: "[example_obs ''Customers'' [''Name'', ''Id''] ''W2''] \<noteq> []" by simp
  have same: "\<forall>d\<in>set [example_obs ''Customers'' [''Name'', ''Id''] ''W2''].
         obs_hash d = obs_hash (example_obs ''Customers'' [''Id'', ''Name''] ''W1'')"
    using example_hashes(1) by simp
  note r = identical_strategy [OF ok look ne same]
  show ?thesis by (intro conjI ok look ne example_hashes(1) r)
qed

text \<open>
  C3. For a name whose observations carry at least two distinct fingerprints, the
  variations computed by \<open>consolidate\<close> are not empty and the strategy is \<open>manual_review\<close>;
  the strategy \<open>most_complete\<close> is not reached on that branch.
\<close>

theorem differing_manual_review:
  assumes "registry_ok (view_registry self)"
    and "map_of (view_registry self) view_name = Some definitions"
    and "d1 \<in> set definitions" and "d2 \<in> set definitions" and "obs_hash d1 \<noteq> obs_hash d2"
  shows "\<exists>unified u. fst (consolidate self) = Inr unified \<and> map_of unified view_name = Some u
           \<and> variations u \<noteq> []
           \<and> merge_strategy u = ''manual_review''
           \<and> merge_strategy u \<noteq> ''most_complete''"
proof -
  from consolidate_lookup [OF assms(1,2)] obtain r u where
    r: "fst (consolidate self) = Inr r" "map_of r view_name = Some u" and
    u: "consolidate_entry view_name definitions = Inr u" by blast
  from differing_entry [OF assms(3-5) u] obtain m where
    m: "py_max completeness definitions = Inr m" and
    v: "variations u = collect_variations m definitions" and
    s: "merge_strategy u =
          (if collect_variations m definitions = [] then ''most_complete'' else ''manual_review'')"
    by auto
  have "obs_hash d1 \<noteq> obs_hash m \<or> obs_hash d2 \<noteq> obs_hash m" using assms(5) by auto
  then have "collect_variations m definitions \<noteq> []"
    using assms(3,4) by (auto simp: collect_variations_empty)
  then show ?thesis using r v s by simp
qed

theorem differing_manual_review_witness:
  "registry_ok (view_registry (registered example_digest example_calls))
   \<and> map_of (view_registry (registered example_digest example_calls)) ''Sales''
       = Some example_sales
   \<and> example_obs ''Sales'' [''OrderID'', ''Amount''] ''W1'' \<in> set example_sales
   \<and> example_obs ''Sales'' [''OrderID'', ''Amount'', ''Region''] ''W3'' \<in> set example_sales
   \<and> obs_hash (example_obs ''Sales'' [''OrderID'', ''Amount''] ''W1'')
       \<noteq> obs_hash (example_obs ''Sales'' [''OrderID'', ''Amount'', ''Region''] ''W3'')
   \<and> (\<exists>unified u.
         fst (consolidate (registered example_digest example_calls)) = Inr unified
         \<and> map_of unified ''Sales'' = Some u
         \<and> variations u \<noteq> []
         \<and> merge_strategy u = ''manual_review''
         \<and> merge_strategy u \<noteq> ''most_complete'')"
proof -
  have ok: "registry_ok (view_registry (registered example_digest example_calls))"
    by (rule registered_ok)
  have look: "map_of (view_registry (registered example_digest example_calls)) ''Sales''
                = Some example_sales"
    by (simp add: example_registry example_sales_def)
  have m1: "example_obs ''Sales'' [''OrderID'', ''Amount''] ''W1'' \<in> set example_sales"
    by (simp add: example_sales_def)
  have m2: "example_obs ''Sales'' [''OrderID'', ''Amount'', ''Region''] ''W3'' \<in> set example_sales"
    by (simp add: example_sales_def)
  note ne = example_hashes(3)
  note r = differing_manual_review [OF ok look m1 m2 ne]
  show ?thesis by (intro conjI ok look m1 m2 ne r)
qed

text \<open>
  C5. For a name with exactly one observation, \<open>consolidate\<close> yields a view without
  variations, whose canonical definition is that observation's record and whose source
  workbooks are the one source.
\<close>

theorem single_observation:
  assumes "registry_ok (view_registry self)"
    and "map_of (view_registry self) view_name = Some [obs]"
  shows "\<exists>unified u. fst (consolidate self) = Inr unified \<and> map_of unified view_name = Some u
           \<and> variations u = []
           \<and> canonical_definition u = Some (obs_definition obs)
           \<and> source_workbooks u = [obs_source obs]"
proof -
  from consolidate_lookup [OF assms] obtain r u where
    "fst (consolidate self) = Inr r" "map_of r view_name = Some u"
    "consolidate_entry view_name [obs] = Inr u" by blast
  then show ?thesis by (auto simp: consolidate_entry_single)
qed

theorem single_observation_witness:
  "registry_ok (view_registry (registered example_digest example_calls))
   \<and> map_of (view_registry (registered example_digest example_calls)) ''Orders''
       = Some [example_obs ''Orders'' [''OrderID''] ''W2'']
   \<and> (\<exists>unified u.
         fst (consolidate (registered example_digest example_calls)) = Inr unified
         \<and> map_of unified ''Orders'' = Some u
         \<and> variations u = []
         \<and> canonical_definition u
             = Some (obs_definition (example_obs ''Orders'' [''OrderID''] ''W2''))
         \<and> source_workbooks u = [obs_source (example_obs ''Orders'' [''OrderID''] ''W2'')])"
proof -
  have ok: "registry_ok (view_registry (registered example_digest example_calls))"
    by (rule registered_ok)
  have look: "map_of (view_registry (registered example_digest example_calls)) ''Orders''
       = Some [example_obs ''Orders'' [''OrderID''] ''W2'']"
    by (simp add: example_registry)
  note r = single_observation [OF ok look]
  show ?thesis by (intro conjI ok look r)
qed

text \<open>
  C6. The structural difference is symmetric under swapping its arguments: what is only
  in the second definition of \<open>diff(A, B)\<close> is what is only in the first of \<open>diff(B, A)\<close>,
  for column names and for calculated-field names.
\<close>

theorem difference_symmetry:
  "columns_only_in_def2 (compute_difference a b) = columns_only_in_def1 (compute_difference b a)
   \<and> calc_fields_only_in_def2 (compute_difference a b)
       = calc_fields_only_in_def1 (compute_difference b a)"
  by (simp add: compute_difference_def Let_def)

section \<open>Claims about the calculated fields, the report and the emitter\<close>

text \<open>
  C10. After every sequence of \<open>register_field\<close> calls, \<open>find_duplicates\<close> returns the
  empty mapping (and leaves the consolidator as it was).
\<close>

theorem find_duplicates_empty:
  "fst (find_duplicates (fields_registered calls)) = []
   \<and> snd (find_duplicates (fields_registered calls)) = fields_registered calls"
  by (simp add: find_duplicates_def)

text \<open>
  C7, as amended. The report is a function of the unified-view mapping, the
  duplicate-field mapping, the number of workbook paths and the total number of parsed data
  sources: two orchestrators that agree on these four produce equal reports, whatever
  their registries and the rest of their parsed-workbook state are.
\<close>

theorem report_inputs:
  assumes "unified_views a = unified_views b"
    and "duplicate_calcs a = duplicate_calcs b"
    and "length (workbook_paths a) = length (workbook_paths b)"
    and "sum_list (map (\<lambda>p. length (data_sources p)) (parsers a))
           = sum_list (map (\<lambda>p. length (data_sources p)) (parsers b))"
  shows "generate_consolidation_report a = generate_consolidation_report b"
  using assms by (simp add: generate_consolidation_report_def)

theorem report_inputs_witness:
  "unified_views (example_state [''uploads/a.twb''])
     = unified_views ((example_state [''uploads/a.twb''])
         \<lparr>view_consolidator := ViewConsolidator_init\<rparr>)
   \<and> duplicate_calcs (example_state [''uploads/a.twb''])
       = duplicate_calcs ((example_state [''uploads/a.twb''])
           \<lparr>view_consolidator := ViewConsolidator_init\<rparr>)
   \<and> length (workbook_paths (example_state [''uploads/a.twb'']))
       = length (workbook_paths ((example_state [''uploads/a.twb''])
           \<lparr>view_consolidator := ViewConsolidator_init\<rparr>))
   \<and> sum_list (map (\<lambda>p. length (data_sources p)) (parsers (example_state [''uploads/a.twb''])))
       = sum_list (map (\<lambda>p. length (data_sources p))
           (parsers ((example_state [''uploads/a.twb''])
              \<lparr>view_consolidator := ViewConsolidator_init\<rparr>)))
   \<and> generate_consolidation_report (example_state [''uploads/a.twb''])
       = generate_consolidation_report ((example_state [''uploads/a.twb''])
           \<lparr>view_consolidator := ViewConsolidator_init\<rparr>)
   \<and> view_registry (view_consolidator (example_state [''uploads/a.twb''])) \<noteq> []"
proof -
  have h1: "unified_views (example_state [''uploads/a.twb''])
     = unified_views ((example_state [''uploads/a.twb''])
         \<lparr>view_consolidator := ViewConsolidator_init\<rparr>)" by simp
  have h2: "duplicate_calcs (example_state [''uploads/a.twb''])
       = duplicate_calcs ((example_state [''uploads/a.twb''])
           \<lparr>view_consolidator := ViewConsolidator_init\<rparr>)" by simp
  have h3: "length (workbook_paths (example_state [''uploads/a.twb'']))
       = length (workbook_paths ((example_state [''uploads/a.twb''])
           \<lparr>view_consolidator := ViewConsolidator_init\<rparr>))" by simp
  have h4: "sum_list (map (\<lambda>p. length (data_sources p)) (parsers (example_state [''uploads/a.twb''])))
       = sum_list (map (\<lambda>p. length (data_sources p))
           (parsers ((example_state [''uploads/a.twb''])
              \<lparr>view_consolidator := ViewConsolidator_init\<rparr>)))" by simp
  have h5: "view_registry (view_consolidator (example_state [''uploads/a.twb''])) \<noteq> []"
    by code_simp
  note r = report_inputs [OF h1 h2 h3 h4]
  show ?thesis by (intro conjI h1 h2 h3 h4 r h5)
qed

text \<open>
  The claim as stated does not hold: \<open>_generate_consolidation_report\<close> reads
  \<open>self.workbook_paths\<close> and \<open>self.parsers\<close>. The run over \<open>a.twb\<close> alone and the run over
  \<open>a.twb\<close> and \<open>b.twb\<close> (which has no data source) end with equal unified views and equal
  duplicate fields, and report 1 and 2 workbooks analyzed.
\<close>

theorem report_counterexample:
  "unified_views (example_state [''uploads/a.twb''])
     = unified_views (example_state [''uploads/a.twb'', ''uploads/b.twb''])
   \<and> duplicate_calcs (example_state [''uploads/a.twb''])
       = duplicate_calcs (example_state [''uploads/a.twb'', ''uploads/b.twb''])
   \<and> workbooks_analyzed (rep_summary (generate_consolidation_report
         (example_state [''uploads/a.twb'']))) = 1
   \<and> workbooks_analyzed (rep_summary (generate_consolidation_report
         (example_state [''uploads/a.twb'', ''uploads/b.twb'']))) = 2
   \<and> generate_consolidation_report (example_state [''uploads/a.twb''])
       \<noteq> generate_consolidation_report (example_state [''uploads/a.twb'', ''uploads/b.twb''])"
proof -
  have u: "unified_views (example_state [''uploads/a.twb''])
     = unified_views (example_state [''uploads/a.twb'', ''uploads/b.twb''])"
    by code_simp
  have d: "duplicate_calcs (example_state [''uploads/a.twb''])
       = duplicate_calcs (example_state [''uploads/a.twb'', ''uploads/b.twb''])"
    by code_simp
  have w1: "workbooks_analyzed (rep_summary (generate_consolidation_report
         (example_state [''uploads/a.twb'']))) = 1"
    by code_simp
  have w2: "workbooks_analyzed (rep_summary (generate_consolidation_report
         (example_state [''uploads/a.twb'', ''uploads/b.twb'']))) = 2"
    by code_simp
  have ne: "generate_consolidation_report (example_state [''uploads/a.twb''])
       \<noteq> generate_consolidation_report (example_state [''uploads/a.twb'', ''uploads/b.twb''])"
  proof
    assume "generate_consolidation_report (example_state [''uploads/a.twb''])
       = generate_consolidation_report (example_state [''uploads/a.twb'', ''uploads/b.twb''])"
    then have "workbooks_analyzed (rep_summary (generate_consolidation_report
         (example_state [''uploads/a.twb''])))
      = workbooks_analyzed (rep_summary (generate_consolidation_report
         (example_state [''uploads/a.twb'', ''uploads/b.twb''])))"
      by (rule arg_cong)
    then show False unfolding w1 w2 by simp
  qed
  show ?thesis by (intro conjI u d w1 w2 ne)
qed

text \<open>
  C8, as amended. For every view name whose whitespace characters are all spaces, the
  artifact is named by the form obtained by stripping the characters that are neither word
  characters nor whitespace, folding whitespace to underscores, lowercasing and collapsing
  duplicate underscores, with the underscores at both ends removed; and
  \<open>"Top Rising Terms!"\<close> sanitizes to \<open>top_rising_terms\<close>.
\<close>

theorem sanitize_name_spec:
  assumes "\<forall>c\<in>set view_name. is_space c \<longrightarrow> c = CHR '' ''"
  shows "view_artifact_name view_name
           = ''views/'' @ str_strip (\<lambda>c. c = CHR ''_'') (spec_sanitize view_name) @ ''.view.lkml''
         \<and> sanitize_name ''Top Rising Terms!'' = ''top_rising_terms''"
proof -
  have "\<forall>c\<in>set (filter (\<lambda>c. is_word c \<or> is_space c) view_name). is_space c \<longrightarrow> c = CHR '' ''"
    using assms by simp
  from fold_lower_commute [OF this]
  have "sanitize_name view_name = str_strip (\<lambda>c. c = CHR ''_'') (spec_sanitize view_name)"
    by (simp only: sanitize_name_def spec_sanitize_def sub_runs_underscore Let_def)
  moreover have "sanitize_name ''Top Rising Terms!'' = ''top_rising_terms''"
    by code_simp
  ultimately show ?thesis by (simp only: view_artifact_name_def simp_thms)
qed

theorem sanitize_name_spec_witness:
  "filter is_space ''Q1 Sales (EU) '' = ''   ''
   \<and> view_artifact_name ''Q1 Sales (EU) ''
       = ''views/'' @ str_strip (\<lambda>c. c = CHR ''_'') (spec_sanitize ''Q1 Sales (EU) '') @ ''.view.lkml''
   \<and> view_artifact_name ''Q1 Sales (EU) '' = ''views/q1_sales_eu.view.lkml''"
proof -
  have h: "\<forall>c\<in>set ''Q1 Sales (EU) ''. is_space c \<longrightarrow> c = CHR '' ''"
    by (simp add: is_space_def)
  have v: "view_artifact_name ''Q1 Sales (EU) '' = ''views/q1_sales_eu.view.lkml''"
    by code_simp
  have f: "filter is_space ''Q1 Sales (EU) '' = ''   ''"
    by (simp add: is_space_def)
  from sanitize_name_spec [OF h] have
    "view_artifact_name ''Q1 Sales (EU) ''
       = ''views/'' @ str_strip (\<lambda>c. c = CHR ''_'') (spec_sanitize ''Q1 Sales (EU) '') @ ''.view.lkml''"
    by (rule conjunct1)
  then show ?thesis using f v by (intro conjI)
qed

text \<open>
  The claim as stated does not hold: \<open>_sanitize_name\<close> ends with \<open>.strip('_')\<close>, so
  \<open>"Sales -"\<close> gives \<open>sales\<close> where the steps of the claim give \<open>sales_\<close>; and it replaces
  the space character only, so a tab stays in the name.
\<close>

theorem sanitize_name_counterexample:
  "sanitize_name ''Sales -'' = ''sales'' \<and> spec_sanitize ''Sales -'' = ''sales_''
   \<and> sanitize_name ''Sales -'' \<noteq> spec_sanitize ''Sales -''
   \<and> sanitize_name [CHR ''a'', CHR 0x09, CHR ''b''] = [CHR ''a'', CHR 0x09, CHR ''b'']
   \<and> spec_sanitize [CHR ''a'', CHR 0x09, CHR ''b''] = ''a_b''"
  by code_simp

text \<open>
  C9, as amended. The output type is given by the table string to string, integer to
  number, real to number, boolean to yesno, date to date, datetime to time, applied to the
  lowercased datatype; a datatype whose lowercase form is not in the table, such as
  \<open>"geography"\<close>, maps to \<open>string\<close>.
\<close>

theorem map_datatype_table:
  "map_datatype t =
     (if str_lower t = ''string'' then ''string''
      else if str_lower t = ''integer'' then ''number''
      else if str_lower t = ''real'' then ''number''
      else if str_lower t = ''boolean'' then ''yesno''
      else if str_lower t = ''date'' then ''date''
      else if str_lower t = ''datetime'' then ''time''
      else ''string'')
   \<and> map_datatype ''geography'' = ''string''"
proof -
  have "map_datatype ''geography'' = ''string''" by code_simp
  then show ?thesis by (simp add: map_datatype_def datatype_mapping_def)
qed

text \<open>
  The claim as stated does not hold: \<open>boolean\<close> maps to \<open>yesno\<close> and \<open>datetime\<close> to
  \<open>time\<close>, not to \<open>boolean-flag\<close> and \<open>timestamp\<close>, and \<open>"Integer"\<close>, which is not a key of
  the table, maps to \<open>number\<close>, not to the default.
\<close>

theorem map_datatype_counterexample:
  "map_datatype ''boolean'' = ''yesno'' \<and> spec_map_datatype ''boolean'' = ''boolean-flag''
   \<and> map_datatype ''datetime'' = ''time'' \<and> spec_map_datatype ''datetime'' = ''timestamp''
   \<and> map_datatype ''Integer'' = ''number'' \<and> spec_map_datatype ''Integer'' = ''string''"
  by code_simp

end
